theory Spec2Isabelle
  imports Complex_Main "HOL-Library.Word" "HOL-Library.Signed_Division"
begin

section \<open>The stats collector of the replay package (stats.go)\<close>

text \<open>
  The file \<^verbatim>\<open>stats.go\<close> counts operations per operation type, times the sampled
  ones and merges collectors. This theory embeds its functions one by one and proves
  properties of them.

  Conventions of the embedding.
  \<^item> \<^verbatim>\<open>int64\<close> and \<^verbatim>\<open>time.Duration\<close> (an \<^verbatim>\<open>int64\<close> of nanoseconds) are
    \<open>64 word\<close>: \<open>+\<close> wraps around as Go's does, \<open>sint\<close> reads the value. The field
    \<^verbatim>\<open>total\<close> is a Go \<^verbatim>\<open>int\<close>, taken at its 64-bit width.
  \<^item> A Go map is a partial function; reading a missing key gives the zero value
    (\<open>map_index\<close>), as Go's index expression does.
  \<^item> \<^verbatim>\<open>OpType\<close> and \<^verbatim>\<open>AllOpTypes\<close> are declared in another file of the package:
    the operation type is a type parameter \<open>'t\<close> and \<open>AllOpTypes\<close> is a parameter of
    the two functions that range over it.
  \<^item> \<^verbatim>\<open>time.Now()\<close> and \<^verbatim>\<open>rand.Float64()\<close> read the environment: the value each
    call would return is an argument (\<open>now\<close>, \<open>rnd\<close>) of the function that makes it.
  \<^item> A \<^verbatim>\<open>float64\<close> is a \<open>real\<close>: comparisons are those of the finite floats, and
    arithmetic is exact (rounding is not modelled).
  \<^item> A channel is known by its identity (a number); \<^verbatim>\<open>nil\<close> is \<open>None\<close>. A send is an
    output of the function (\<open>Some (channel, value)\<close>); whether the send has to wait for
    a receiver is outside the model.
  \<^item> Dereferencing \<^verbatim>\<open>nil\<close> panics: functions that dereference return \<open>panic + _\<close>.
\<close>

subsection \<open>Data\<close>

type_synonym int64 = "64 word"

type_synonym Duration = "64 word"

type_synonym Time = int

type_synonym chan = nat

datatype panic = NilDereference

text \<open>\<^verbatim>\<open>type Latency struct { OpType OpType; Latency time.Duration }\<close>\<close>

record 't Latency =
  OpType :: 't
  Latency :: Duration

text \<open>The struct \<^verbatim>\<open>StatsCollector\<close>; \<open>total_ops\<close> is its field \<^verbatim>\<open>total\<close>.\<close>

record 't StatsCollector =
  counts :: "'t \<rightharpoonup> int64"
  durations :: "'t \<rightharpoonup> Duration"
  total_ops :: int64
  sampleRate :: real
  epoch :: "Time option"
  lastOp :: "'t option"
  latencyChan :: "chan option"

text \<open>Go's \<^verbatim>\<open>m[k]\<close> as an expression: the zero value when the key is missing.\<close>

definition map_index :: "('k \<rightharpoonup> 64 word) \<Rightarrow> 'k \<Rightarrow> 64 word" where
  "map_index m k = (case m k of None \<Rightarrow> 0 | Some v \<Rightarrow> v)"

subsection \<open>The time package\<close>

text \<open>
  An instant is a number of nanoseconds. \<^verbatim>\<open>t.Sub(u)\<close> is the difference, and, as the
  package documents, the largest (smallest) duration when the difference is beyond it.
\<close>

definition minDuration :: int where
  "minDuration = - (2 ^ 63)"

definition maxDuration :: int where
  "maxDuration = 2 ^ 63 - 1"

definition Sub :: "Time \<Rightarrow> Time \<Rightarrow> Duration" where
  "Sub t u = word_of_int (max minDuration (min maxDuration (t - u)))"

text \<open>\<^verbatim>\<open>time.Second\<close>, in nanoseconds.\<close>

definition Second :: Duration where
  "Second = 1000000000"

text \<open>\<^verbatim>\<open>d.Nanoseconds()\<close> is \<^verbatim>\<open>int64(d)\<close>.\<close>

definition Nanoseconds :: "Duration \<Rightarrow> int64" where
  "Nanoseconds d = d"

text \<open>
  \<^verbatim>\<open>d.Seconds()\<close>: the package computes \<^verbatim>\<open>sec := d / Second; nsec := d % Second\<close>
  (Go's division truncates towards zero) and returns
  \<^verbatim>\<open>float64(sec) + float64(nsec)/1e9\<close>.
\<close>

definition Seconds :: "Duration \<Rightarrow> real" where
  "Seconds d =
     (let sec = sint d sdiv sint Second;
          nsec = sint d smod sint Second
      in real_of_int sec + real_of_int nsec / 1000000000)"

subsection \<open>The collector\<close>

text \<open>\<^verbatim>\<open>NewStatsCollector\<close>: both maps get a zero entry for every type of \<open>AllOpTypes\<close>.\<close>

definition NewStatsCollector :: "'t list \<Rightarrow> 't StatsCollector" where
  "NewStatsCollector AllOpTypes =
     (let (counts0, durations0) =
            fold (\<lambda>opType (c, d). (c(opType \<mapsto> 0), d(opType \<mapsto> 0)))
              AllOpTypes (Map.empty, Map.empty)
      in \<lparr>counts = counts0, durations = durations0, total_ops = 0, sampleRate = 1,
          epoch = None, lastOp = None, latencyChan = None\<rparr>)"

text \<open>
  \<^verbatim>\<open>StartOp\<close>. \<open>now\<close> is what \<^verbatim>\<open>time.Now()\<close> returns and \<open>rnd\<close> what
  \<^verbatim>\<open>rand.Float64()\<close> returns, should the call reach them.
\<close>

definition StartOp :: "'t \<Rightarrow> Time \<Rightarrow> real \<Rightarrow> 't StatsCollector \<Rightarrow> 't StatsCollector" where
  "StartOp opType now rnd s =
     (let s1 = s\<lparr>total_ops := total_ops s + 1\<rparr>;
          s2 = s1\<lparr>counts := (counts s1)(opType \<mapsto> map_index (counts s1) opType + 1)\<rparr>
      in if sampleRate s2 = 0 then s2
         else if sampleRate s2 = 1 \<or> rnd < sampleRate s2
           then s2\<lparr>epoch := Some now, lastOp := Some opType\<rparr>
           else s2)"

text \<open>
  \<^verbatim>\<open>EndOp\<close>. The second component of the result is the send on the latency channel,
  if one is made. \<^verbatim>\<open>*s.lastOp\<close> panics when \<^verbatim>\<open>lastOp\<close> is \<^verbatim>\<open>nil\<close>.
\<close>

definition EndOp ::
  "Time \<Rightarrow> 't StatsCollector \<Rightarrow> panic + ('t StatsCollector \<times> (chan \<times> 't Latency) option)" where
  "EndOp now s =
     (case epoch s of
        None \<Rightarrow> Inr (s, None)
      | Some e \<Rightarrow>
          (case lastOp s of
             None \<Rightarrow> Inl NilDereference
           | Some lop \<Rightarrow>
               (let duration = Sub now e;
                    s1 = s\<lparr>durations :=
                            (durations s)(lop \<mapsto> map_index (durations s) lop + duration)\<rparr>;
                    sent = (case latencyChan s1 of
                              None \<Rightarrow> None
                            | Some ch \<Rightarrow> Some (ch, \<lparr>OpType = lop, Latency = duration\<rparr>))
                in Inr (s1\<lparr>epoch := None, lastOp := None\<rparr>, sent))))"

definition Count :: "'t StatsCollector \<Rightarrow> 't \<Rightarrow> int64" where
  "Count s opType = map_index (counts s) opType"

definition TotalTime :: "'t StatsCollector \<Rightarrow> 't \<Rightarrow> Duration" where
  "TotalTime s opType = map_index (durations s) opType"

definition OpsSec :: "'t StatsCollector \<Rightarrow> 't \<Rightarrow> real" where
  "OpsSec s opType =
     (let nano = Nanoseconds (TotalTime s opType)
      in if nano = 0 then 0
         else real_of_int (sint (map_index (counts s) opType)) * real_of_int (sint Second)
                / real_of_int (sint nano))"

definition LatencyInMs :: "'t StatsCollector \<Rightarrow> 't \<Rightarrow> real" where
  "LatencyInMs s opType =
     (let count = real_of_int (sint (map_index (counts s) opType))
      in if count = 0 then 0
         else (let sec = Seconds (TotalTime s opType) in sec / count * 1000))"

definition SampleLatencies ::
  "real \<Rightarrow> chan option \<Rightarrow> 't StatsCollector \<Rightarrow> 't StatsCollector" where
  "SampleLatencies rate latencyChannel s =
     s\<lparr>sampleRate := rate, latencyChan := latencyChannel\<rparr>"

subsection \<open>Merging collectors\<close>

text \<open>The body of the inner loop of \<^verbatim>\<open>CombineStats\<close>, for one type and one input.\<close>

definition CombineStats_body ::
  "'t \<Rightarrow> 't StatsCollector \<Rightarrow> 't StatsCollector \<Rightarrow> 't StatsCollector" where
  "CombineStats_body opType stats newStats =
     (let n1 = newStats\<lparr>counts := (counts newStats)(opType \<mapsto>
                  map_index (counts newStats) opType + map_index (counts stats) opType)\<rparr>;
          n2 = n1\<lparr>durations := (durations n1)(opType \<mapsto>
                  map_index (durations n1) opType + map_index (durations stats) opType)\<rparr>
      in n2\<lparr>total_ops := total_ops n2 + total_ops stats\<rparr>)"

text \<open>
  \<^verbatim>\<open>CombineStats\<close> on the values of its inputs: the outer loop ranges over
  \<open>AllOpTypes\<close>, the inner one over the inputs.
\<close>

definition CombineStats :: "'t list \<Rightarrow> 't StatsCollector list \<Rightarrow> 't StatsCollector" where
  "CombineStats AllOpTypes statsList =
     fold (\<lambda>opType newStats. fold (CombineStats_body opType) statsList newStats)
       AllOpTypes (NewStatsCollector AllOpTypes)"

text \<open>
  \<^verbatim>\<open>CombineStats\<close> on pointers. The inputs are \<^verbatim>\<open>*StatsCollector\<close>: a heap is the
  list of the collectors allocated so far, a pointer is \<open>None\<close> (\<^verbatim>\<open>nil\<close>) or the
  index of a collector. \<^verbatim>\<open>NewStatsCollector()\<close> allocates at the end of the heap;
  the loops read through the input pointers and write through \<open>newStats\<close> only.
\<close>

type_synonym 't heap = "'t StatsCollector list"

type_synonym ptr = "nat option"

definition deref :: "'t heap \<Rightarrow> ptr \<Rightarrow> panic + 't StatsCollector" where
  "deref h p =
     (case p of
        None \<Rightarrow> Inl NilDereference
      | Some a \<Rightarrow> if a < length h then Inr (h ! a) else Inl NilDereference)"

fun CombineStats_inner :: "'t \<Rightarrow> nat \<Rightarrow> ptr list \<Rightarrow> 't heap \<Rightarrow> panic + 't heap" where
  "CombineStats_inner opType newStats [] h = Inr h"
| "CombineStats_inner opType newStats (stats # rest) h =
     (case deref h stats of
        Inl e \<Rightarrow> Inl e
      | Inr sv \<Rightarrow>
          CombineStats_inner opType newStats rest
            (h[newStats := CombineStats_body opType sv (h ! newStats)]))"

fun CombineStats_outer :: "'t list \<Rightarrow> nat \<Rightarrow> ptr list \<Rightarrow> 't heap \<Rightarrow> panic + 't heap" where
  "CombineStats_outer [] newStats statsList h = Inr h"
| "CombineStats_outer (opType # rest) newStats statsList h =
     (case CombineStats_inner opType newStats statsList h of
        Inl e \<Rightarrow> Inl e
      | Inr h' \<Rightarrow> CombineStats_outer rest newStats statsList h')"

definition CombineStats_heap ::
  "'t list \<Rightarrow> ptr list \<Rightarrow> 't heap \<Rightarrow> panic + (ptr \<times> 't heap)" where
  "CombineStats_heap AllOpTypes statsList h =
     (let newStats = length h;
          h0 = h @ [NewStatsCollector AllOpTypes]
      in case CombineStats_outer AllOpTypes newStats statsList h0 of
           Inl e \<Rightarrow> Inl e
         | Inr h' \<Rightarrow> Inr (Some newStats, h'))"

subsection \<open>The null collector\<close>

text \<open>\<^verbatim>\<open>type nullStatsCollector struct{}\<close>: a value without fields.\<close>

datatype nullStatsCollector = NullStatsCollector

definition NewNullStatsCollector :: nullStatsCollector where
  "NewNullStatsCollector = NullStatsCollector"

definition null_StartOp :: "'t \<Rightarrow> nullStatsCollector \<Rightarrow> nullStatsCollector" where
  "null_StartOp opType e = e"

definition null_EndOp :: "nullStatsCollector \<Rightarrow> nullStatsCollector" where
  "null_EndOp e = e"

definition null_SampleLatencies ::
  "real \<Rightarrow> chan option \<Rightarrow> nullStatsCollector \<Rightarrow> nullStatsCollector" where
  "null_SampleLatencies rate latencyChannel e = e"

definition null_Count :: "nullStatsCollector \<Rightarrow> 't \<Rightarrow> int64" where
  "null_Count e opType = 0"

definition null_TotalTime :: "nullStatsCollector \<Rightarrow> 't \<Rightarrow> Duration" where
  "null_TotalTime e opType = 0"

definition null_OpsSec :: "nullStatsCollector \<Rightarrow> 't \<Rightarrow> real" where
  "null_OpsSec e opType = 0"

definition null_LatencyInMs :: "nullStatsCollector \<Rightarrow> 't \<Rightarrow> real" where
  "null_LatencyInMs e opType = 0"

subsection \<open>Calls through the interface\<close>

text \<open>
  The six methods of \<^verbatim>\<open>IStatsCollector\<close>, each with the values the environment
  gives it, and what a call returns. A sequence of calls on one collector is run in
  order; it collects what each call returns and sends.
\<close>

datatype 't call =
    CallStartOp 't Time real
  | CallEndOp Time
  | CallCount 't
  | CallOpsSec 't
  | CallLatencyInMs 't
  | CallSampleLatencies real "chan option"

datatype result = Done | Int64 int64 | Float64 real

fun step ::
  "'t call \<Rightarrow> 't StatsCollector \<Rightarrow>
     panic + ('t StatsCollector \<times> result \<times> (chan \<times> 't Latency) option)" where
  "step (CallStartOp opType now rnd) s = Inr (StartOp opType now rnd s, Done, None)"
| "step (CallEndOp now) s =
     (case EndOp now s of Inl e \<Rightarrow> Inl e | Inr (s', sent) \<Rightarrow> Inr (s', Done, sent))"
| "step (CallCount opType) s = Inr (s, Int64 (Count s opType), None)"
| "step (CallOpsSec opType) s = Inr (s, Float64 (OpsSec s opType), None)"
| "step (CallLatencyInMs opType) s = Inr (s, Float64 (LatencyInMs s opType), None)"
| "step (CallSampleLatencies rate latencyChannel) s =
     Inr (SampleLatencies rate latencyChannel s, Done, None)"

fun run ::
  "'t call list \<Rightarrow> 't StatsCollector \<Rightarrow>
     panic + ('t StatsCollector \<times> (result \<times> (chan \<times> 't Latency) option) list)" where
  "run [] s = Inr (s, [])"
| "run (c # cs) s =
     (case step c s of
        Inl e \<Rightarrow> Inl e
      | Inr (s', out) \<Rightarrow>
          (case run cs s' of
             Inl e \<Rightarrow> Inl e
           | Inr (s'', outs) \<Rightarrow> Inr (s'', out # outs)))"

fun null_step ::
  "'t call \<Rightarrow> nullStatsCollector \<Rightarrow>
     nullStatsCollector \<times> result \<times> (chan \<times> 't Latency) option" where
  "null_step (CallStartOp opType now rnd) e = (null_StartOp opType e, Done, None)"
| "null_step (CallEndOp now) e = (null_EndOp e, Done, None)"
| "null_step (CallCount opType) e = (e, Int64 (null_Count e opType), None)"
| "null_step (CallOpsSec opType) e = (e, Float64 (null_OpsSec e opType), None)"
| "null_step (CallLatencyInMs opType) e = (e, Float64 (null_LatencyInMs e opType), None)"
| "null_step (CallSampleLatencies rate latencyChannel) e =
     (null_SampleLatencies rate latencyChannel e, Done, None)"

fun null_run ::
  "'t call list \<Rightarrow> nullStatsCollector \<Rightarrow>
     nullStatsCollector \<times> (result \<times> (chan \<times> 't Latency) option) list" where
  "null_run [] e = (e, [])"
| "null_run (c # cs) e =
     (case null_step c e of
        (e', out) \<Rightarrow> (case null_run cs e' of (e'', outs) \<Rightarrow> (e'', out # outs)))"

subsection \<open>Notions the properties are stated with\<close>

text \<open>
  A \<^verbatim>\<open>StartOp\<close> is sampled when it reaches the assignment of \<^verbatim>\<open>epoch\<close>: the
  rate is not 0, and it is 1 or the draw is below it.
\<close>

definition sampled :: "real \<Rightarrow> real \<Rightarrow> bool" where
  "sampled rate rnd = (rate \<noteq> 0 \<and> (rate = 1 \<or> rnd < rate))"

text \<open>\<open>N\<close> calls of \<^verbatim>\<open>StartOp(t)\<close> in a row, one for each pair of a time and a draw.\<close>

definition StartOps :: "'t \<Rightarrow> (Time \<times> real) list \<Rightarrow> 't StatsCollector \<Rightarrow> 't StatsCollector" where
  "StartOps t envs s = fold (\<lambda>(now, rnd). StartOp t now rnd) envs s"

text \<open>
  The two pointers \<^verbatim>\<open>epoch\<close> and \<^verbatim>\<open>lastOp\<close> are set and cleared together: a
  collector with a start time has the type that goes with it.
\<close>

definition paired :: "'t StatsCollector \<Rightarrow> bool" where
  "paired s = (epoch s = None \<or> lastOp s \<noteq> None)"

text \<open>A pointer that can be dereferenced in a heap: not \<^verbatim>\<open>nil\<close>, and allocated.\<close>

definition valid :: "'t heap \<Rightarrow> ptr \<Rightarrow> bool" where
  "valid h p = (case p of None \<Rightarrow> False | Some a \<Rightarrow> a < length h)"

subsection \<open>Example inputs\<close>

text \<open>
  Two operation types; a collector on which one sampled \<^verbatim>\<open>StartOp("insert")\<close> at
  time 100 is pending; and the same collector once \<^verbatim>\<open>EndOp\<close> has run at time 250.
\<close>

definition ex_types :: "string list" where
  "ex_types = [''insert'', ''query'']"

definition ex_pending :: "string StatsCollector" where
  "ex_pending = StartOp ''insert'' 100 0 (NewStatsCollector ex_types)"

definition ex_ended :: "string StatsCollector" where
  "ex_ended = ex_pending\<lparr>durations := (durations ex_pending)(''insert'' \<mapsto> 150),
                epoch := None, lastOp := None\<rparr>"

section \<open>Properties\<close>

subsection \<open>Maps, time and the constructor\<close>

lemma map_index_upd: "map_index (m(k \<mapsto> v)) k' = (if k' = k then v else map_index m k')"
  by (simp add: map_index_def)




lemma sint_of_nat_small:
  assumes "n < 2 ^ 63"
  shows "sint (of_nat n :: 64 word) = int n"
proof -
  have "sint (of_nat n :: 64 word) = signed_take_bit 63 (int n)"
    using signed_of_nat [where ?'b = 64 and ?'a = int, of n] by simp
  also have "\<dots> = int n"
  proof (rule signed_take_bit_int_eq_self)
    show "- (2 ^ 63) \<le> int n"
      by simp
    from assms have "int n < int (2 ^ 63)"
      by (simp only: of_nat_less_iff)
    then show "int n < 2 ^ 63"
      by simp
  qed
  finally show ?thesis .
qed

lemma New_fold:
  "fold (\<lambda>opType (c, d). (c(opType \<mapsto> 0), d(opType \<mapsto> 0))) A (c0, d0) =
     ((\<lambda>t. if t \<in> set A then Some 0 else c0 t), (\<lambda>t. if t \<in> set A then Some 0 else d0 t))"
  by (induction A arbitrary: c0 d0) (auto simp add: fun_eq_iff)

lemma NewStatsCollector_eq:
  "NewStatsCollector A =
     \<lparr>counts = (\<lambda>t. if t \<in> set A then Some 0 else None),
      durations = (\<lambda>t. if t \<in> set A then Some 0 else None),
      total_ops = 0, sampleRate = 1, epoch = None, lastOp = None, latencyChan = None\<rparr>"
  by (simp add: NewStatsCollector_def New_fold)

lemma Count_New: "Count (NewStatsCollector A) t = 0"
  by (simp add: NewStatsCollector_eq Count_def map_index_def)

lemma TotalTime_New: "TotalTime (NewStatsCollector A) t = 0"
  by (simp add: NewStatsCollector_eq TotalTime_def map_index_def)

lemma New_paired: "paired (NewStatsCollector A)"
  by (simp add: NewStatsCollector_eq paired_def)

subsection \<open>One call\<close>

text \<open>\<^verbatim>\<open>StartOp\<close> in one equation: the two tests of the rate decide one thing.\<close>

lemma StartOp_eq:
  "StartOp opType now rnd s =
     (if sampled (sampleRate s) rnd
      then s\<lparr>counts := (counts s)(opType \<mapsto> map_index (counts s) opType + 1),
             total_ops := total_ops s + 1, epoch := Some now, lastOp := Some opType\<rparr>
      else s\<lparr>counts := (counts s)(opType \<mapsto> map_index (counts s) opType + 1),
             total_ops := total_ops s + 1\<rparr>)"
  by (auto simp add: StartOp_def sampled_def Let_def)

lemma StartOp_Count:
  "Count (StartOp t now rnd s) t' = (if t' = t then Count s t + 1 else Count s t')"
  by (simp add: StartOp_eq Count_def map_index_upd)

lemma StartOp_paired: "paired s \<Longrightarrow> paired (StartOp t now rnd s)"
  by (simp add: StartOp_eq paired_def)

lemma SampleLatencies_Count: "Count (SampleLatencies rate sink s) t = Count s t"
  by (simp add: SampleLatencies_def Count_def)

lemma StartOps_Count:
  "Count (StartOps t envs s) t' =
     (if t' = t then Count s t + of_nat (length envs) else Count s t')"
  unfolding StartOps_def
proof (induction envs arbitrary: s)
  case Nil
  show ?case
    by simp
next
  case (Cons env envs)
  obtain now rnd where env: "env = (now, rnd)"
    by (cases env)
  show ?case
    by (simp add: env Cons.IH StartOp_Count add.assoc)
qed

text \<open>On a collector whose two pointers go together, \<^verbatim>\<open>EndOp\<close> returns.\<close>

lemma EndOp_paired:
  assumes "paired s"
  shows "\<exists>s' sent. EndOp now s = Inr (s', sent) \<and> paired s' \<and> counts s' = counts s"
proof (cases "epoch s")
  case None
  with assms show ?thesis
    by (simp add: EndOp_def)
next
  case (Some e)
  with assms obtain lop where "lastOp s = Some lop"
    by (auto simp add: paired_def)
  with Some show ?thesis
    by (simp add: EndOp_def Let_def paired_def)
qed

lemma ex_pending_eq:
  "ex_pending = (NewStatsCollector ex_types)
     \<lparr>counts := (counts (NewStatsCollector ex_types))(''insert'' \<mapsto> 1),
      total_ops := 1, epoch := Some 100, lastOp := Some ''insert''\<rparr>"
  by (simp add: ex_pending_def StartOp_eq sampled_def NewStatsCollector_eq map_index_def)



subsection \<open>Ending an operation\<close>



lemma unsampled_cases:
  "rate = 0 \<or> (0 < rate \<and> rate < 1 \<and> \<not> rnd < rate) \<Longrightarrow> \<not> sampled rate rnd"
  by (auto simp add: sampled_def)

text \<open>
  C3. When a timed operation is pending (started at \<open>e\<close> for type \<open>t1\<close>), a
  \<^verbatim>\<open>StartOp\<close> that is not sampled (the rate is 0, or the draw is not below it)
  leaves the pending start and its type in place. The next \<^verbatim>\<open>EndOp\<close> then adds
  the whole time elapsed since \<open>e\<close> to the duration of \<open>t1\<close>, sends a sample for
  \<open>t1\<close> if a channel is set, and is not a no-op.
\<close>

theorem unsampled_StartOp_keeps_pending:
  assumes "epoch s = Some e" and "lastOp s = Some t1" and "\<not> sampled (sampleRate s) rnd"
  shows "epoch (StartOp t2 now rnd s) = Some e \<and> lastOp (StartOp t2 now rnd s) = Some t1 \<and>
         EndOp now' (StartOp t2 now rnd s) =
           Inr ((StartOp t2 now rnd s)
                  \<lparr>durations := (durations s)(t1 \<mapsto> map_index (durations s) t1 + Sub now' e),
                   epoch := None, lastOp := None\<rparr>,
                map_option (\<lambda>ch. (ch, \<lparr>OpType = t1, Latency = Sub now' e\<rparr>)) (latencyChan s)) \<and>
         EndOp now' (StartOp t2 now rnd s) \<noteq> Inr (StartOp t2 now rnd s, None)"
proof -
  let ?s' = "StartOp t2 now rnd s"
  from assms(3) have s': "?s' = s\<lparr>counts := (counts s)(t2 \<mapsto> map_index (counts s) t2 + 1),
      total_ops := total_ops s + 1\<rparr>"
    by (simp add: StartOp_eq)
  have kept: "epoch ?s' = Some e" "lastOp ?s' = Some t1"
    using assms(1,2) by (simp_all add: s')
  have ended: "EndOp now' ?s' =
      Inr (?s'\<lparr>durations := (durations s)(t1 \<mapsto> map_index (durations s) t1 + Sub now' e),
               epoch := None, lastOp := None\<rparr>,
           map_option (\<lambda>ch. (ch, \<lparr>OpType = t1, Latency = Sub now' e\<rparr>)) (latencyChan s))"
    using assms(1,2) by (cases "latencyChan s") (simp_all add: s' EndOp_def Let_def)
  have "EndOp now' ?s' \<noteq> Inr (?s', None)"
  proof
    assume "EndOp now' ?s' = Inr (?s', None)"
    with ended have "?s'\<lparr>durations := (durations s)(t1 \<mapsto> map_index (durations s) t1 + Sub now' e),
        epoch := None, lastOp := None\<rparr> = ?s'"
      by simp
    then have "epoch (?s'\<lparr>durations := (durations s)(t1 \<mapsto> map_index (durations s) t1 + Sub now' e),
        epoch := None, lastOp := None\<rparr>) = epoch ?s'"
      by (rule arg_cong)
    with kept show False
      by simp
  qed
  with kept ended show ?thesis
    by blast
qed

theorem unsampled_StartOp_keeps_pending_witness:
  "epoch (SampleLatencies 0 (Some 7) ex_pending) = Some 100 \<and>
   lastOp (SampleLatencies 0 (Some 7) ex_pending) = Some ''insert'' \<and>
   \<not> sampled (sampleRate (SampleLatencies 0 (Some 7) ex_pending)) 0 \<and>
   epoch (StartOp ''query'' 200 0 (SampleLatencies 0 (Some 7) ex_pending)) = Some 100 \<and>
   map_sum id snd (EndOp 350 (StartOp ''query'' 200 0 (SampleLatencies 0 (Some 7) ex_pending))) =
     Inr (Some (7, \<lparr>OpType = ''insert'', Latency = 250\<rparr>))"
proof -
  let ?s = "SampleLatencies 0 (Some 7) ex_pending"
  have h1: "epoch ?s = Some 100" and h2: "lastOp ?s = Some ''insert''"
    by (simp_all add: SampleLatencies_def ex_pending_eq)
  have h3: "\<not> sampled (sampleRate ?s) 0"
    by (simp add: SampleLatencies_def sampled_def)
  have d: "Sub 350 100 = 250"
    by (simp add: Sub_def minDuration_def maxDuration_def)
  have c: "latencyChan ?s = Some 7"
    by (simp add: SampleLatencies_def)
  from unsampled_StartOp_keeps_pending [OF h1 h2 h3, of "''query''" 200 350]
  have "epoch (StartOp ''query'' 200 0 ?s) = Some 100"
    and "map_sum id snd (EndOp 350 (StartOp ''query'' 200 0 ?s)) =
      Inr (Some (7, \<lparr>OpType = ''insert'', Latency = 250\<rparr>))"
    by (simp_all add: d c)
  with h1 h2 h3 show ?thesis
    by blast
qed

text \<open>
  C4. Two sampled calls \<^verbatim>\<open>StartOp(t1)\<close> and \<^verbatim>\<open>StartOp(t2)\<close> with no
  \<^verbatim>\<open>EndOp\<close> in between, then one \<^verbatim>\<open>EndOp\<close>. After the two calls the one pending
  slot holds the second start, and the collector does not depend on the time \<open>n1\<close> of
  the first. \<^verbatim>\<open>EndOp\<close> returns; only the duration of \<open>t2\<close> changes, by the time
  since the second start; each of the two calls has added one to the count of its
  type; nothing is pending afterwards, so that a further \<^verbatim>\<open>EndOp\<close> does nothing.
\<close>

theorem overlapping_StartOp_times_the_second:
  assumes "sampled (sampleRate s) rnd1" and "sampled (sampleRate s) rnd2"
  shows "epoch (StartOp t2 n2 rnd2 (StartOp t1 n1 rnd1 s)) = Some n2 \<and>
         lastOp (StartOp t2 n2 rnd2 (StartOp t1 n1 rnd1 s)) = Some t2 \<and>
         StartOp t2 n2 rnd2 (StartOp t1 n1 rnd1 s) = StartOp t2 n2 rnd2 (StartOp t1 n1' rnd1 s) \<and>
         (\<exists>s'. EndOp n3 (StartOp t2 n2 rnd2 (StartOp t1 n1 rnd1 s)) =
                  Inr (s', map_option (\<lambda>ch. (ch, \<lparr>OpType = t2, Latency = Sub n3 n2\<rparr>))
                             (latencyChan s)) \<and>
               (\<forall>t. TotalTime s' t =
                      (if t = t2 then TotalTime s t + Sub n3 n2 else TotalTime s t)) \<and>
               (\<forall>t. Count s' t =
                      Count s t + (if t = t1 then 1 else 0) + (if t = t2 then 1 else 0)) \<and>
               total_ops s' = total_ops s + 2 \<and> epoch s' = None \<and> lastOp s' = None \<and>
               EndOp n4 s' = Inr (s', None))"
  using assms
  by (cases "latencyChan s")
    (simp_all add: StartOp_eq EndOp_def Let_def TotalTime_def Count_def map_index_upd)

theorem overlapping_StartOp_times_the_second_witness:
  "sampled (sampleRate (NewStatsCollector ex_types)) 0 \<and>
   epoch (StartOp ''query'' 200 0 ex_pending) = Some 200 \<and>
   lastOp (StartOp ''query'' 200 0 ex_pending) = Some ''query'' \<and>
   (\<exists>s'. EndOp 350 (StartOp ''query'' 200 0 ex_pending) = Inr (s', None) \<and>
      TotalTime s' ''query'' = 150 \<and> TotalTime s' ''insert'' = 0 \<and>
      Count s' ''query'' = 1 \<and> Count s' ''insert'' = 1)"
proof -
  have h: "sampled (sampleRate (NewStatsCollector ex_types)) 0"
    by (simp add: NewStatsCollector_eq sampled_def)
  have d: "Sub 350 200 = 150"
    by (simp add: Sub_def minDuration_def maxDuration_def)
  have c: "latencyChan (NewStatsCollector ex_types) = None"
    by (simp add: NewStatsCollector_eq)
  from overlapping_StartOp_times_the_second [OF h h, of "''query''" 200 "''insert''" 100 100 350 0]
  show ?thesis
    unfolding ex_pending_def [symmetric] using h
    by (auto simp add: d c Count_New TotalTime_New)
qed

subsection \<open>Changing the sampling while an operation is pending\<close>




subsection \<open>Sequences of calls\<close>

text \<open>
  Every call keeps the two pointers together, so no \<^verbatim>\<open>EndOp\<close> of a sequence run on
  a new collector panics; only \<^verbatim>\<open>StartOp(t)\<close> changes the count of \<open>t\<close>.
\<close>

lemma step_paired:
  assumes "paired s"
  shows "\<exists>s' out. step c s = Inr (s', out) \<and> paired s' \<and>
           (\<forall>t. (\<forall>now rnd. c \<noteq> CallStartOp t now rnd) \<longrightarrow> Count s' t = Count s t)"
proof (cases c)
  case (CallStartOp t0 now rnd)
  with assms show ?thesis
    by (auto simp add: StartOp_paired StartOp_Count)
next
  case (CallEndOp now)
  from EndOp_paired [OF assms, of now]
  obtain s' sent where "EndOp now s = Inr (s', sent)" "paired s'" "counts s' = counts s"
    by blast
  with CallEndOp show ?thesis
    by (simp add: Count_def)
next
  case (CallSampleLatencies rate sink)
  with assms show ?thesis
    by (simp add: SampleLatencies_def paired_def Count_def)
qed (use assms in simp_all)

lemma run_paired:
  assumes "paired s"
  shows "\<exists>s' outs. run cs s = Inr (s', outs) \<and> paired s' \<and> length outs = length cs \<and>
           (\<forall>t. (\<forall>now rnd. CallStartOp t now rnd \<notin> set cs) \<longrightarrow> Count s' t = Count s t)"
  using assms
proof (induction cs arbitrary: s)
  case Nil
  then show ?case by simp
next
  case (Cons c cs)
  from step_paired [OF Cons.prems, of c]
  obtain s1 out where s1: "step c s = Inr (s1, out)" "paired s1"
    and c1: "\<forall>t. (\<forall>now rnd. c \<noteq> CallStartOp t now rnd) \<longrightarrow> Count s1 t = Count s t"
    by blast
  from Cons.IH [OF s1(2)]
  obtain s2 outs where s2: "run cs s1 = Inr (s2, outs)" "paired s2" "length outs = length cs"
    and c2: "\<forall>t. (\<forall>now rnd. CallStartOp t now rnd \<notin> set cs) \<longrightarrow> Count s2 t = Count s1 t"
    by blast
  have "run (c # cs) s = Inr (s2, out # outs)"
    by (simp add: s1 s2)
  moreover have "\<forall>t. (\<forall>now rnd. CallStartOp t now rnd \<notin> set (c # cs)) \<longrightarrow> Count s2 t = Count s t"
    using c1 c2 by (metis list.set_intros(1) list.set_intros(2))
  ultimately show ?case
    using s2 by simp
qed

text \<open>
  C5. On a new collector, whatever rate and sink \<^verbatim>\<open>SampleLatencies\<close> has set (rate 0
  included), \<open>N\<close> calls of \<^verbatim>\<open>StartOp(t)\<close> with no \<^verbatim>\<open>EndOp\<close> leave
  \<^verbatim>\<open>Count(t)\<close> at \<open>N\<close>: as an \<^verbatim>\<open>int64\<close> in general, and as a number as long
  as \<open>N\<close> is below \<open>2\<^sup>6\<^sup>3\<close>. The count of every other type is 0; and after any
  sequence of calls on a new collector that never passes \<open>t'\<close> to \<^verbatim>\<open>StartOp\<close>
  (the sequence runs without a panic), \<^verbatim>\<open>Count(t')\<close> is 0.
\<close>

theorem Count_counts_every_StartOp:
  "Count (StartOps t envs (SampleLatencies rate sink (NewStatsCollector A))) t =
     of_nat (length envs) \<and>
   (length envs < 2 ^ 63 \<longrightarrow>
      sint (Count (StartOps t envs (SampleLatencies rate sink (NewStatsCollector A))) t) =
        int (length envs)) \<and>
   (\<forall>t'. t' \<noteq> t \<longrightarrow>
      Count (StartOps t envs (SampleLatencies rate sink (NewStatsCollector A))) t' = 0) \<and>
   (\<forall>cs t'. (\<forall>now rnd. CallStartOp t' now rnd \<notin> set cs) \<longrightarrow>
      (\<exists>s' outs. run cs (NewStatsCollector A) = Inr (s', outs) \<and> Count s' t' = 0))"
proof -
  have "\<exists>s' outs. run cs (NewStatsCollector A) = Inr (s', outs) \<and> Count s' t' = 0"
    if "\<forall>now rnd. CallStartOp t' now rnd \<notin> set cs" for cs :: "'a call list" and t'
    using run_paired [OF New_paired, of cs A] that by (auto simp add: Count_New)
  then show ?thesis
    by (simp add: StartOps_Count SampleLatencies_Count Count_New sint_of_nat_small)
qed

theorem Count_counts_every_StartOp_witness:
  "Count (StartOps ''insert'' [(1, 0), (2, 0), (3, 0)]
      (SampleLatencies 0 None (NewStatsCollector ex_types))) ''insert'' = 3 \<and>
   sint (Count (StartOps ''insert'' [(1, 0), (2, 0), (3, 0)]
      (SampleLatencies 0 None (NewStatsCollector ex_types))) ''insert'') = 3 \<and>
   Count (StartOps ''insert'' [(1, 0), (2, 0), (3, 0)]
      (SampleLatencies 0 None (NewStatsCollector ex_types))) ''query'' = 0 \<and>
   (\<exists>s' outs. run [CallStartOp ''insert'' 1 0, CallEndOp 2, CallSampleLatencies 0 None,
                   CallStartOp ''insert'' 3 0, CallEndOp 4] (NewStatsCollector ex_types) =
                 Inr (s', outs) \<and> Count s' ''query'' = 0)"
proof -
  let ?cs = "[CallStartOp ''insert'' 1 0, CallEndOp 2, CallSampleLatencies 0 None,
              CallStartOp ''insert'' 3 0, CallEndOp 4] :: string call list"
  have never: "\<forall>now rnd. CallStartOp ''query'' now rnd \<notin> set ?cs"
    by simp
  have small: "length [(1::int, 0::real), (2, 0), (3, 0)] < 2 ^ 63"
    by simp
  have other: "''query'' \<noteq> ''insert''"
    by simp
  note all = Count_counts_every_StartOp [of "''insert''" "[(1, 0), (2, 0), (3, 0)]" 0 None ex_types]
  note p1 = all [THEN conjunct1]
  note p2 = all [THEN conjunct2, THEN conjunct1, rule_format, OF small]
  note p3 = all [THEN conjunct2, THEN conjunct2, THEN conjunct1, rule_format, OF other]
  note p4 = all [THEN conjunct2, THEN conjunct2, THEN conjunct2, rule_format, OF never [rule_format]]
  have "of_nat (length [(1::int, 0::real), (2, 0), (3, 0)]) = (3 :: 64 word)"
    and "int (length [(1::int, 0::real), (2, 0), (3, 0)]) = 3"
    by simp_all
  with p1 p2 have "Count (StartOps ''insert'' [(1, 0), (2, 0), (3, 0)]
      (SampleLatencies 0 None (NewStatsCollector ex_types))) ''insert'' = 3"
    and "sint (Count (StartOps ''insert'' [(1, 0), (2, 0), (3, 0)]
      (SampleLatencies 0 None (NewStatsCollector ex_types))) ''insert'') = 3"
    by (simp_all only:)
  with p3 p4 show ?thesis
    by (intro conjI)
qed

subsection \<open>The derived metrics\<close>





subsection \<open>What merging computes\<close>

text \<open>What one pass of the inner loop, and then the whole loop, does to each field.\<close>

lemma body_config:
  "sampleRate (CombineStats_body t x n) = sampleRate n"
  "latencyChan (CombineStats_body t x n) = latencyChan n"
  "epoch (CombineStats_body t x n) = epoch n"
  "lastOp (CombineStats_body t x n) = lastOp n"
  by (simp_all add: CombineStats_body_def Let_def)

lemma body_total: "total_ops (CombineStats_body t x n) = total_ops n + total_ops x"
  by (simp add: CombineStats_body_def Let_def)

lemma body_Count:
  "Count (CombineStats_body t x n) t' = (if t' = t then Count n t + Count x t else Count n t')"
  by (simp add: CombineStats_body_def Let_def Count_def map_index_upd)

lemma body_TotalTime:
  "TotalTime (CombineStats_body t x n) t' =
     (if t' = t then TotalTime n t + TotalTime x t else TotalTime n t')"
  by (simp add: CombineStats_body_def Let_def TotalTime_def map_index_upd)

lemma inner_total:
  "total_ops (fold (CombineStats_body t) xs n) = total_ops n + sum_list (map total_ops xs)"
  by (induction xs arbitrary: n) (simp_all add: body_total add.assoc)

lemma inner_Count:
  "Count (fold (CombineStats_body t) xs n) t' =
     (if t' = t then Count n t + sum_list (map (\<lambda>x. Count x t) xs) else Count n t')"
  by (induction xs arbitrary: n) (simp_all add: body_Count add.assoc)

lemma inner_TotalTime:
  "TotalTime (fold (CombineStats_body t) xs n) t' =
     (if t' = t then TotalTime n t + sum_list (map (\<lambda>x. TotalTime x t) xs) else TotalTime n t')"
  by (induction xs arbitrary: n) (simp_all add: body_TotalTime add.assoc)

lemma inner_config:
  "sampleRate (fold (CombineStats_body t) xs n) = sampleRate n"
  "latencyChan (fold (CombineStats_body t) xs n) = latencyChan n"
  "epoch (fold (CombineStats_body t) xs n) = epoch n"
  "lastOp (fold (CombineStats_body t) xs n) = lastOp n"
  by (induction xs arbitrary: n) (simp_all add: body_config)

lemma outer_total:
  "total_ops (fold (\<lambda>opType newStats. fold (CombineStats_body opType) xs newStats) A n) =
     total_ops n + of_nat (length A) * sum_list (map total_ops xs)"
  by (induction A arbitrary: n) (simp_all add: inner_total algebra_simps)

lemma outer_Count:
  "distinct A \<Longrightarrow>
   Count (fold (\<lambda>opType newStats. fold (CombineStats_body opType) xs newStats) A n) t =
     (if t \<in> set A then Count n t + sum_list (map (\<lambda>x. Count x t) xs) else Count n t)"
  by (induction A arbitrary: n) (auto simp add: inner_Count)

lemma outer_TotalTime:
  "distinct A \<Longrightarrow>
   TotalTime (fold (\<lambda>opType newStats. fold (CombineStats_body opType) xs newStats) A n) t =
     (if t \<in> set A then TotalTime n t + sum_list (map (\<lambda>x. TotalTime x t) xs) else TotalTime n t)"
  by (induction A arbitrary: n) (auto simp add: inner_TotalTime)

lemma outer_config:
  "sampleRate (fold (\<lambda>opType newStats. fold (CombineStats_body opType) xs newStats) A n) = sampleRate n"
  "latencyChan (fold (\<lambda>opType newStats. fold (CombineStats_body opType) xs newStats) A n) = latencyChan n"
  "epoch (fold (\<lambda>opType newStats. fold (CombineStats_body opType) xs newStats) A n) = epoch n"
  "lastOp (fold (\<lambda>opType newStats. fold (CombineStats_body opType) xs newStats) A n) = lastOp n"
  by (induction A arbitrary: n) (simp_all add: inner_config)

lemma CombineStats_total:
  "total_ops (CombineStats A xs) = of_nat (length A) * sum_list (map total_ops xs)"
  by (simp add: CombineStats_def outer_total NewStatsCollector_eq)

lemma CombineStats_Count:
  "distinct A \<Longrightarrow> t \<in> set A \<Longrightarrow> Count (CombineStats A xs) t = sum_list (map (\<lambda>x. Count x t) xs)"
  by (simp add: CombineStats_def outer_Count Count_New)

lemma CombineStats_TotalTime:
  "distinct A \<Longrightarrow> t \<in> set A \<Longrightarrow> TotalTime (CombineStats A xs) t = sum_list (map (\<lambda>x. TotalTime x t) xs)"
  by (simp add: CombineStats_def outer_TotalTime TotalTime_New)

lemma fold_skip: "fold (\<lambda>opType newStats. newStats) A n = n"
  by (induction A) simp_all

lemma CombineStats_Nil: "CombineStats A [] = NewStatsCollector A"
  by (simp add: CombineStats_def fold_skip)

lemma CombineStats_config:
  "sampleRate (CombineStats A xs) = 1 \<and> latencyChan (CombineStats A xs) = None \<and>
   epoch (CombineStats A xs) = None \<and> lastOp (CombineStats A xs) = None"
  by (simp add: CombineStats_def outer_config NewStatsCollector_eq)

text \<open>
  C1. The counts and durations of the result are the sums over the inputs, and no
  inputs give a new collector (the lemmas above). The \<^verbatim>\<open>total\<close> of the result is
  not the sum of the inputs' totals: the statement that adds it stands inside the loop
  over the operation types, so every input's total is added once per type. With two
  types, merging the one example collector, whose total is 1, gives total 2 (its count
  of \<^verbatim>\<open>insert\<close> stays 1).
\<close>

theorem CombineStats_total_counted_per_type:
  "total_ops ex_pending = 1 \<and>
   total_ops (CombineStats ex_types [ex_pending]) = 2 \<and>
   Count (CombineStats ex_types [ex_pending]) ''insert'' = 1"
proof -
  have one: "total_ops ex_pending = 1"
    by (simp add: ex_pending_eq)
  have "total_ops (CombineStats ex_types [ex_pending]) =
      of_nat (length ex_types) * sum_list (map total_ops [ex_pending])"
    by (rule CombineStats_total)
  also have "\<dots> = 2"
    by (simp add: one ex_types_def)
  finally have two: "total_ops (CombineStats ex_types [ex_pending]) = 2" .
  have "distinct ex_types" and "''insert'' \<in> set ex_types"
    by (simp_all add: ex_types_def)
  then have "Count (CombineStats ex_types [ex_pending]) ''insert'' =
      sum_list (map (\<lambda>x. Count x ''insert'') [ex_pending])"
    by (rule CombineStats_Count)
  also have "\<dots> = 1"
    by (simp add: ex_pending_def StartOp_Count Count_New)
  finally show ?thesis
    using one two by simp
qed

text \<open>
  The loops on the heap: with valid inputs they write the cell of \<open>newStats\<close> only,
  and what they leave there is the value \<open>CombineStats\<close> computes from the inputs.
\<close>

lemma deref_append:
  "valid h p \<Longrightarrow> deref (h @ [n]) p = Inr (h ! the p)"
  by (cases p) (simp_all add: valid_def deref_def nth_append)

lemma inner_heap:
  "\<forall>p \<in> set ps. valid h p \<Longrightarrow>
   CombineStats_inner t (length h) ps (h @ [n]) =
     Inr (h @ [fold (CombineStats_body t) (map (\<lambda>p. h ! the p) ps) n])"
  by (induction ps arbitrary: n) (simp_all add: deref_append)

lemma outer_heap:
  "\<forall>p \<in> set ps. valid h p \<Longrightarrow>
   CombineStats_outer A (length h) ps (h @ [n]) =
     Inr (h @ [fold (\<lambda>opType newStats. fold (CombineStats_body opType) (map (\<lambda>p. h ! the p) ps) newStats) A n])"
  by (induction A arbitrary: n) (simp_all add: inner_heap)

lemma CombineStats_heap_eq:
  "\<forall>p \<in> set ps. valid h p \<Longrightarrow>
   CombineStats_heap A ps h = Inr (Some (length h), h @ [CombineStats A (map (\<lambda>p. h ! the p) ps)])"
  by (simp add: CombineStats_heap_def outer_heap CombineStats_def)

text \<open>
  C9. \<^verbatim>\<open>CombineStats\<close> on valid pointers returns a pointer to a new collector at the
  end of the heap. Every collector that was in the heap before the call, the inputs
  among them, is what it was: counts, durations, total, rate and sink. The new
  collector holds the merged values, with the sampling settings of the constructor
  (rate 1, no sink, nothing pending), whatever the inputs' settings.
\<close>

theorem CombineStats_leaves_inputs:
  assumes "\<forall>p \<in> set statsList. valid h p"
  shows "\<exists>h'. CombineStats_heap A statsList h = Inr (Some (length h), h') \<and>
           length h' = Suc (length h) \<and> take (length h) h' = h \<and>
           h' ! length h = CombineStats A (map (\<lambda>p. h ! the p) statsList) \<and>
           sampleRate (h' ! length h) = sampleRate (NewStatsCollector A) \<and>
           sampleRate (h' ! length h) = 1 \<and>
           latencyChan (h' ! length h) = None \<and>
           epoch (h' ! length h) = None \<and> lastOp (h' ! length h) = None"
proof -
  let ?new = "CombineStats A (map (\<lambda>p. h ! the p) statsList)"
  have "CombineStats_heap A statsList h = Inr (Some (length h), h @ [?new])"
    using assms by (rule CombineStats_heap_eq)
  moreover have "sampleRate (NewStatsCollector A) = 1"
    by (simp add: NewStatsCollector_eq)
  ultimately show ?thesis
    using CombineStats_config [of A "map (\<lambda>p. h ! the p) statsList"] by simp
qed

theorem CombineStats_leaves_inputs_witness:
  "valid [SampleLatencies 0 (Some 7) ex_pending, ex_ended] (Some 0) \<and>
   valid [SampleLatencies 0 (Some 7) ex_pending, ex_ended] (Some 1) \<and>
   (\<exists>h'. CombineStats_heap ex_types [Some 0, Some 1, Some 0]
            [SampleLatencies 0 (Some 7) ex_pending, ex_ended] = Inr (Some 2, h') \<and>
      take 2 h' = [SampleLatencies 0 (Some 7) ex_pending, ex_ended] \<and>
      sampleRate (h' ! 2) = 1 \<and> latencyChan (h' ! 2) = None)"
proof -
  let ?h = "[SampleLatencies 0 (Some 7) ex_pending, ex_ended]"
  have v: "\<forall>p \<in> set [Some 0, Some 1, Some 0]. valid ?h p"
    by (simp add: valid_def)
  have len: "length ?h = 2"
    by simp
  have ok: "valid ?h (Some 0)" "valid ?h (Some 1)"
    by (simp_all add: valid_def)
  from CombineStats_leaves_inputs [OF v, of ex_types]
  obtain h' where
    "CombineStats_heap ex_types [Some 0, Some 1, Some 0] ?h = Inr (Some (length ?h), h')"
    "take (length ?h) h' = ?h"
    "sampleRate (h' ! length ?h) = 1" "latencyChan (h' ! length ?h) = None"
    by blast
  then show ?thesis
    unfolding len using ok by blast
qed

subsection \<open>The null collector does nothing\<close>

lemma null_step_eq:
  "null_step c e = (e, (case c of CallCount _ \<Rightarrow> Int64 0 | CallOpsSec _ \<Rightarrow> Float64 0
                        | CallLatencyInMs _ \<Rightarrow> Float64 0 | _ \<Rightarrow> Done), None)"
  by (cases c) (simp_all add: null_StartOp_def null_EndOp_def null_SampleLatencies_def
      null_Count_def null_OpsSec_def null_LatencyInMs_def)

lemma null_run_eq:
  "null_run cs e = (e, map (\<lambda>c. (case c of CallCount _ \<Rightarrow> Int64 0 | CallOpsSec _ \<Rightarrow> Float64 0
                        | CallLatencyInMs _ \<Rightarrow> Float64 0 | _ \<Rightarrow> Done, None)) cs)"
  by (induction cs arbitrary: e) (simp_all add: null_step_eq)

text \<open>
  C10. Each method of the null collector leaves it as it is; \<^verbatim>\<open>Count\<close>,
  \<^verbatim>\<open>OpsSec\<close> and \<^verbatim>\<open>LatencyInMs\<close> return 0. Any sequence of calls, in any order
  and of any length, returns for every call (there is no panic and no send in the
  result), leaves the collector unchanged, and every value returned is zero.
\<close>

theorem null_collector_does_nothing:
  "null_StartOp t e = e \<and> null_EndOp e = e \<and> null_SampleLatencies rate sink e = e \<and>
   null_Count e t = 0 \<and> null_OpsSec e t = 0 \<and> null_LatencyInMs e t = 0 \<and>
   fst (null_run cs e) = e \<and> length (snd (null_run cs e)) = length cs \<and>
   (\<forall>out \<in> set (snd (null_run cs e)). fst out \<in> {Done, Int64 0, Float64 0} \<and> snd out = None)"
proof -
  have "fst out \<in> {Done, Int64 0, Float64 0} \<and> snd out = None"
    if "out \<in> set (snd (null_run cs e))" for out
    using that by (auto simp add: null_run_eq split: call.splits)
  then show ?thesis
    by (simp add: null_run_eq null_StartOp_def null_EndOp_def null_SampleLatencies_def
      null_Count_def null_OpsSec_def null_LatencyInMs_def)
qed

theorem null_collector_does_nothing_witness:
  "last (snd (null_run [CallEndOp 5, CallCount ''insert'', CallStartOp ''insert'' 10 0,
                  CallSampleLatencies 1 (Some 7), CallStartOp ''query'' 20 0,
                  CallOpsSec ''insert'', CallEndOp 30, CallLatencyInMs ''query'',
                  CallCount ''insert''] NewNullStatsCollector))
     \<in> set (snd (null_run [CallEndOp 5, CallCount ''insert'', CallStartOp ''insert'' 10 0,
                  CallSampleLatencies 1 (Some 7), CallStartOp ''query'' 20 0,
                  CallOpsSec ''insert'', CallEndOp 30, CallLatencyInMs ''query'',
                  CallCount ''insert''] NewNullStatsCollector)) \<and>
   fst (last (snd (null_run [CallEndOp 5, CallCount ''insert'', CallStartOp ''insert'' 10 0,
                  CallSampleLatencies 1 (Some 7), CallStartOp ''query'' 20 0,
                  CallOpsSec ''insert'', CallEndOp 30, CallLatencyInMs ''query'',
                  CallCount ''insert''] NewNullStatsCollector)))
     \<in> {Done, Int64 0, Float64 0} \<and>
   fst (null_run [CallEndOp 5, CallCount ''insert'', CallStartOp ''insert'' 10 0,
                  CallSampleLatencies 1 (Some 7), CallStartOp ''query'' 20 0,
                  CallOpsSec ''insert'', CallEndOp 30, CallLatencyInMs ''query'',
                  CallCount ''insert''] NewNullStatsCollector) = NewNullStatsCollector \<and>
   snd (null_run [CallEndOp 5, CallCount ''insert'', CallStartOp ''insert'' 10 0,
                  CallSampleLatencies 1 (Some 7), CallStartOp ''query'' 20 0,
                  CallOpsSec ''insert'', CallEndOp 30, CallLatencyInMs ''query'',
                  CallCount ''insert''] NewNullStatsCollector) =
     [(Done, None), (Int64 0, None), (Done, None), (Done, None), (Done, None),
      (Float64 0, None), (Done, None), (Float64 0, None), (Int64 0, None)]"
proof -
  let ?cs = "[CallEndOp 5, CallCount ''insert'', CallStartOp ''insert'' 10 0,
              CallSampleLatencies 1 (Some 7), CallStartOp ''query'' 20 0,
              CallOpsSec ''insert'', CallEndOp 30, CallLatencyInMs ''query'',
              CallCount ''insert''] :: string call list"
  let ?outs = "snd (null_run ?cs NewNullStatsCollector)"
  have outs: "?outs =
      [(Done, None), (Int64 0, None), (Done, None), (Done, None), (Done, None),
       (Float64 0, None), (Done, None), (Float64 0, None), (Int64 0, None)]"
    by (simp add: NewNullStatsCollector_def null_StartOp_def null_EndOp_def
        null_SampleLatencies_def null_Count_def null_OpsSec_def null_LatencyInMs_def)
  have mem: "last ?outs \<in> set ?outs"
    unfolding outs by simp
  note all = null_collector_does_nothing [of "''insert''" NewNullStatsCollector 1 None ?cs]
  from all mem have "fst (last ?outs) \<in> {Done, Int64 0, Float64 0}"
    by blast
  moreover from all have "fst (null_run ?cs NewNullStatsCollector) = NewNullStatsCollector"
    by blast
  ultimately show ?thesis
    using outs mem by blast
qed

end
